theory Spec2Isabelle
  imports Complex_Main "HOL-Library.Log_Nat"
begin

section \<open>Python numbers\<close>

text \<open>
  Python's \<open>int\<close> is unbounded and is modelled by \<open>int\<close>; \<open>//\<close> on integers is floor
  division, which is \<open>div\<close> on \<open>int\<close>.

  A Python \<open>float\<close> is an IEEE 754 binary64 number. A finite binary64 value is a rational
  number, so floats are modelled as the rationals that are representable, and every
  floating-point operation of the source is the exact rational operation followed by
  \<open>fl\<close>, rounding to the nearest representable value with 53 significant bits, ties to
  even. A literal such as \<open>1.3\<close> is \<open>fl (13 / 10)\<close>; an integer operand is converted
  exactly, all integers of the program being far below \<open>2 ^ 53\<close>; the true division of two
  integers is correctly rounded, \<open>fl (a / b)\<close>. Overflow and subnormal numbers are not
  modelled: no quantity of the program comes near either range.
\<close>

definition pow2 :: "int \<Rightarrow> rat" where
  "pow2 e = (if 0 \<le> e then 2 ^ nat e else 1 / 2 ^ nat (- e))"

definition round_half_even :: "rat \<Rightarrow> int" where
  "round_half_even q =
     (let f = \<lfloor>q\<rfloor>; d = q - of_int f
      in if d < 1 / 2 then f
         else if 1 / 2 < d then f + 1
         else if even f then f else f + 1)"

text \<open>The binary exponent of a positive rational: \<open>pow2 (expo q) \<le> q < pow2 (expo q + 1)\<close>.\<close>

definition expo :: "rat \<Rightarrow> int" where
  "expo q =
     (case quotient_of q of (a, b) \<Rightarrow>
        let d = bitlen a - bitlen b
        in if pow2 d \<le> q then d else d - 1)"

definition fl :: "rat \<Rightarrow> rat" where
  "fl q =
     (if q = 0 then 0
      else let s = pow2 (expo \<bar>q\<bar> - 52)
           in sgn q * of_int (round_half_even (\<bar>q\<bar> / s)) * s)"

text \<open>\<open>int(x)\<close> on a float truncates towards zero.\<close>

definition py_int :: "rat \<Rightarrow> int" where
  "py_int q = (if 0 \<le> q then \<lfloor>q\<rfloor> else \<lceil>q\<rceil>)"

section \<open>Errors, images and the imaging library\<close>

datatype py_error =
    NameError string
  | ZeroDivisionError
  | ValueError
  | FileNotFoundError

datatype mode = RGB | RGBA | OtherMode

text \<open>
  An image is its size and colour mode; the pixel values play no part in the geometry.
\<close>

record image =
  width :: int
  height :: int
  mode :: mode

type_synonym box = "int \<times> int \<times> int \<times> int"

text \<open>
  \<open>Image.crop\<close>: the result has the size of the box; a box whose right or lower edge lies
  before its left or upper edge is rejected.
\<close>

definition crop :: "image \<Rightarrow> box \<Rightarrow> py_error + image" where
  "crop im b =
     (case b of (x0, y0, x1, y1) \<Rightarrow>
        if x1 < x0 \<or> y1 < y0 then Inl ValueError
        else Inr (im\<lparr>width := x1 - x0, height := y1 - y0\<rparr>))"

text \<open>
  \<open>Image.resize\<close>: the result has the requested size, which must be at least 1 by 1.
\<close>

definition resize :: "image \<Rightarrow> int \<times> int \<Rightarrow> py_error + image" where
  "resize im sz =
     (if fst sz < 1 \<or> snd sz < 1 then Inl ValueError
      else Inr (im\<lparr>width := fst sz, height := snd sz\<rparr>))"

section \<open>The processor's constants\<close>

definition target_width_mm :: int where
  "target_width_mm = 35"

definition target_height_mm :: int where
  "target_height_mm = 45"

definition dpi :: int where
  "dpi = 300"

definition target_width_px :: int where
  "target_width_px = py_int (fl (fl (of_int target_width_mm / fl (254 / 10)) * of_int dpi))"

definition target_height_px :: int where
  "target_height_px = py_int (fl (fl (of_int target_height_mm / fl (254 / 10)) * of_int dpi))"

definition print_width_px :: int where
  "print_width_px = 6 * dpi"

definition print_height_px :: int where
  "print_height_px = 4 * dpi"

section \<open>Cropping and resizing\<close>

type_synonym face_box = "int \<times> int \<times> int \<times> int"

definition target_aspect_ratio :: rat where
  "target_aspect_ratio = fl (of_int target_width_px / of_int target_height_px)"

text \<open>
  The quantities of the face-anchored branch of \<open>crop_and_resize\<close>, for a face box
  \<open>(x, y, w, h)\<close>, in the order in which the source computes them.
\<close>

definition face_center_x :: "int \<Rightarrow> int \<Rightarrow> int" where
  "face_center_x x w = x + w div 2"

definition face_center_y :: "int \<Rightarrow> int \<Rightarrow> int" where
  "face_center_y y h = y + h div 2"

definition head_to_photo_ratio :: rat where
  "head_to_photo_ratio = fl (70 / 100)"

definition estimated_head_height :: "int \<Rightarrow> rat" where
  "estimated_head_height h = fl (of_int h * fl (13 / 10))"

definition photo_height :: "int \<Rightarrow> rat" where
  "photo_height h = fl (estimated_head_height h / head_to_photo_ratio)"

definition photo_width :: "int \<Rightarrow> rat" where
  "photo_width h = fl (photo_height h * target_aspect_ratio)"

definition face_offset_y :: "int \<Rightarrow> rat" where
  "face_offset_y h = fl (of_int h * fl (3 / 10))"

definition crop_center_y :: "int \<Rightarrow> int \<Rightarrow> rat" where
  "crop_center_y y h = fl (of_int (face_center_y y h) - face_offset_y h)"

definition crop_center_x :: "int \<Rightarrow> int \<Rightarrow> int" where
  "crop_center_x x w = face_center_x x w"

text \<open>The crop origin, first as computed from the crop centre, then held inside the image.\<close>

definition crop_y_of_center :: "int \<Rightarrow> int \<Rightarrow> rat" where
  "crop_y_of_center y h = fl (crop_center_y y h - fl (photo_height h / 2))"

definition crop_x_of_center :: "int \<Rightarrow> int \<Rightarrow> int \<Rightarrow> rat" where
  "crop_x_of_center x w h = fl (of_int (crop_center_x x w) - fl (photo_width h / 2))"

definition clamped_crop_x :: "int \<Rightarrow> int \<Rightarrow> int \<Rightarrow> int \<Rightarrow> rat" where
  "clamped_crop_x W x w h = max 0 (min (crop_x_of_center x w h) (fl (of_int W - photo_width h)))"

definition clamped_crop_y :: "int \<Rightarrow> int \<Rightarrow> int \<Rightarrow> rat" where
  "clamped_crop_y H y h = max 0 (min (crop_y_of_center y h) (fl (of_int H - photo_height h)))"

text \<open>
  The face-anchored branch, up to the crop box. The branch that scales an oversized crop
  down reads \<open>face_position_ratio\<close>, a name that is bound nowhere in the program, so it
  ends in a \<open>NameError\<close> once the scale factor, the new dimensions and the new \<open>crop_x\<close>
  have been computed.
\<close>

definition face_crop_box :: "int \<Rightarrow> int \<Rightarrow> face_box \<Rightarrow> py_error + box" where
  "face_crop_box W H fb =
     (case fb of (x, y, w, h) \<Rightarrow>
        let crop_x = clamped_crop_x W x w h;
            crop_y = clamped_crop_y H y h
        in if photo_width h > of_int W \<or> photo_height h > of_int H then
             let scale_factor =
                   fl (min (fl (of_int W / photo_width h)) (fl (of_int H / photo_height h))
                       * fl (95 / 100));
                 photo_width' = fl (photo_width h * scale_factor);
                 photo_height' = fl (photo_height h * scale_factor);
                 crop_x = fl (of_int (face_center_x x w) - fl (photo_width' / 2))
             in Inl (NameError ''face_position_ratio'')
           else
             Inr (py_int crop_x, py_int crop_y,
                  py_int (fl (crop_x + photo_width h)), py_int (fl (crop_y + photo_height h))))"

text \<open>The centre-fallback branch, up to the crop box.\<close>

definition center_crop_box :: "int \<Rightarrow> int \<Rightarrow> py_error + box" where
  "center_crop_box W H =
     (if H = 0 then Inl ZeroDivisionError
      else if fl (of_int W / of_int H) > target_aspect_ratio then
        let new_width = py_int (fl (of_int H * target_aspect_ratio));
            crop_x = (W - new_width) div 2
        in Inr (crop_x, 0, crop_x + new_width, H)
      else
        let new_height = py_int (fl (of_int W / target_aspect_ratio));
            crop_y = (H - new_height) div 4
        in Inr (0, crop_y, W, crop_y + new_height))"

definition crop_box_of :: "int \<Rightarrow> int \<Rightarrow> face_box option \<Rightarrow> py_error + box" where
  "crop_box_of W H face =
     (case face of Some fb \<Rightarrow> face_crop_box W H fb | None \<Rightarrow> center_crop_box W H)"

definition crop_and_resize :: "image \<Rightarrow> face_box option \<Rightarrow> py_error + image" where
  "crop_and_resize im face =
     (case crop_box_of (width im) (height im) face of
        Inl e \<Rightarrow> Inl e
      | Inr crop_box \<Rightarrow>
          (case crop im crop_box of
             Inl e \<Rightarrow> Inl e
           | Inr cropped \<Rightarrow>
               if height cropped = 0 then Inl ZeroDivisionError
               else resize cropped (target_width_px, target_height_px)))"

section \<open>The print sheet\<close>

text \<open>
  The sheet records its size, the rectangle covered by every pasted photo (before
  clipping to the sheet, which is what \<open>Image.paste\<close> does with a photo that sticks out)
  and every border rectangle drawn.
\<close>

record sheet =
  sheet_width :: int
  sheet_height :: int
  pastes :: "box list"
  borders :: "box list"

definition new_sheet :: "int \<times> int \<Rightarrow> sheet" where
  "new_sheet sz = \<lparr>sheet_width = fst sz, sheet_height = snd sz, pastes = [], borders = []\<rparr>"

definition paste :: "sheet \<Rightarrow> image \<Rightarrow> int \<times> int \<Rightarrow> sheet" where
  "paste s im pos =
     s\<lparr>pastes := pastes s @ [(fst pos, snd pos, fst pos + width im, snd pos + height im)]\<rparr>"

definition draw_rectangle :: "sheet \<Rightarrow> box \<Rightarrow> sheet" where
  "draw_rectangle s b = s\<lparr>borders := borders s @ [b]\<rparr>"

definition photos_per_row :: int where
  "photos_per_row = 3"

definition photos_per_col :: int where
  "photos_per_col = 2"

definition photo_margin :: int where
  "photo_margin = 10"

definition cell_width :: int where
  "cell_width = target_width_px + 2 * photo_margin"

definition cell_height :: int where
  "cell_height = target_height_px + 2 * photo_margin"

definition total_grid_width :: int where
  "total_grid_width = photos_per_row * cell_width"

definition total_grid_height :: int where
  "total_grid_height = photos_per_col * cell_height"

definition start_x :: int where
  "start_x = (print_width_px - total_grid_width) div 2"

definition start_y :: int where
  "start_y = (print_height_px - total_grid_height) div 2"

text \<open>The body of the inner loop of \<open>create_4x6_print\<close>: one photo and its border.\<close>

definition place_photo :: "image \<Rightarrow> int \<Rightarrow> int \<Rightarrow> sheet \<Rightarrow> sheet" where
  "place_photo visa_photo row col s =
     (let cell_x = start_x + col * cell_width;
          cell_y = start_y + row * cell_height;
          photo_x = cell_x + photo_margin;
          photo_y = cell_y + photo_margin;
          s = paste s visa_photo (photo_x, photo_y);
          border_thickness = 1
      in draw_rectangle s
           (photo_x - border_thickness, photo_y - border_thickness,
            photo_x + target_width_px + border_thickness,
            photo_y + target_height_px + border_thickness))"

text \<open>
  \<open>create_4x6_print\<close> has no failing statement; it is given the result type of the other
  stages so that the pipeline can treat all of them alike.
\<close>

definition create_4x6_print :: "image \<Rightarrow> py_error + sheet" where
  "create_4x6_print visa_photo =
     Inr (fold (\<lambda>row s. fold (\<lambda>col s. place_photo visa_photo row col s)
                         [0 .. photos_per_row - 1] s)
               [0 .. photos_per_col - 1]
               (new_sheet (print_width_px, print_height_px)))"

text \<open>Rectangles \<open>(x0, y0, x1, y1)\<close>: containment in a sheet, and having no pixel in common.\<close>

fun inside :: "box \<Rightarrow> int \<Rightarrow> int \<Rightarrow> bool" where
  "inside (x0, y0, x1, y1) W H = (0 \<le> x0 \<and> x0 \<le> x1 \<and> x1 \<le> W \<and> 0 \<le> y0 \<and> y0 \<le> y1 \<and> y1 \<le> H)"

fun disjoint_boxes :: "box \<Rightarrow> box \<Rightarrow> bool" where
  "disjoint_boxes (a0, b0, a1, b1) (c0, d0, c1, d1) =
     (a1 \<le> c0 \<or> c1 \<le> a0 \<or> b1 \<le> d0 \<or> d1 \<le> b0)"

fun pairwise_disjoint :: "box list \<Rightarrow> bool" where
  "pairwise_disjoint [] = True"
| "pairwise_disjoint (r # rs) = (list_all (disjoint_boxes r) rs \<and> pairwise_disjoint rs)"

text \<open>
  A crop box whose width to height ratio is within 1 percent of
  \<open>target_width_px / target_height_px\<close>.
\<close>

definition aspect_within_1_percent :: "box \<Rightarrow> bool" where
  "aspect_within_1_percent b =
     (case b of (x0, y0, x1, y1) \<Rightarrow>
        y0 < y1 \<and>
        \<bar>of_int (x1 - x0) / of_int (y1 - y0) - of_int target_width_px / of_int target_height_px\<bar>
          \<le> (1 / 100) * (of_int target_width_px / of_int target_height_px :: rat))"

section \<open>The pipeline\<close>

text \<open>
  \<open>str.replace\<close> with a non-empty pattern: every occurrence, found from left to right
  without overlaps, is replaced.
\<close>

fun str_replace :: "string \<Rightarrow> string \<Rightarrow> string \<Rightarrow> string" where
  "str_replace [] old new = []"
| "str_replace (c # cs) old new =
     (if old \<noteq> [] \<and> take (length old) (c # cs) = old
      then new @ str_replace (drop (length old) (c # cs)) old new
      else c # str_replace cs old new)"

definition print_output_path :: "string \<Rightarrow> string" where
  "print_output_path output_path = str_replace output_path ''.jpg'' ''_4x6_print.jpg''"

text \<open>
  The background remover is an external collaborator: \<open>rembg\<close> gives its result, or
  \<open>None\<close> when it raises; \<open>remove_background\<close> then falls back to the image it was given.
\<close>

definition remove_background :: "(image \<Rightarrow> image option) \<Rightarrow> image \<Rightarrow> image" where
  "remove_background rembg im =
     (case rembg im of Some r \<Rightarrow> r\<lparr>mode := RGBA\<rparr> | None \<Rightarrow> im\<lparr>mode := RGBA\<rparr>)"

definition add_white_background :: "image \<Rightarrow> image" where
  "add_white_background im = im\<lparr>mode := RGB\<rparr>"

definition enhance_image :: "image \<Rightarrow> image" where
  "enhance_image im = (if mode im \<noteq> RGB then im\<lparr>mode := RGB\<rparr> else im)"

text \<open>The files of the run: what has been saved under each path.\<close>

datatype saved = Photo image | Print sheet

type_synonym files = "string \<rightharpoonup> saved"

definition image_open :: "files \<Rightarrow> string \<Rightarrow> py_error + image" where
  "image_open fs path =
     (case fs path of
        None \<Rightarrow> Inl FileNotFoundError
      | Some (Photo im) \<Rightarrow> Inr im
      | Some (Print s) \<Rightarrow> Inr \<lparr>width = sheet_width s, height = sheet_height s, mode = RGB\<rparr>)"

text \<open>
  \<open>process_photo\<close>, with the face detector and the background remover as parameters.
  Every exception ends the run with \<open>False\<close> and leaves the files as they are at that
  point. The face detector is taken to return normally; creating the output directory
  and the failures of the file system itself are left out. Saving takes its format from
  the call, not from the file name, so any path can be written.
\<close>

definition process_photo ::
  "(image \<Rightarrow> face_box option) \<Rightarrow> (image \<Rightarrow> image option) \<Rightarrow> files \<Rightarrow> string \<Rightarrow> string
     \<Rightarrow> bool \<Rightarrow> bool \<Rightarrow> files \<times> bool" where
  "process_photo detect_face rembg fs input_path output_path remove_bg create_print =
     (case image_open fs input_path of
        Inl e \<Rightarrow> (fs, False)
      | Inr im \<Rightarrow>
          let face_box = detect_face im;
              im = (if remove_bg then remove_background rembg im else im)
          in case crop_and_resize im face_box of
               Inl e \<Rightarrow> (fs, False)
             | Inr im \<Rightarrow>
                 let im = add_white_background im;
                     im = enhance_image im;
                     fs = fs(output_path \<mapsto> Photo im)
                 in if create_print then
                      (case create_4x6_print im of
                         Inl e \<Rightarrow> (fs, False)
                       | Inr print_image \<Rightarrow>
                           (fs(print_output_path output_path \<mapsto> Print print_image), True))
                    else (fs, True))"

section \<open>Rounding to the nearest float\<close>

lemma pow2_powi: "pow2 e = 2 powi e"
  by (simp add: pow2_def power_int_def inverse_eq_divide power_one_over)

lemma pow2_pos: "0 < pow2 e"
  by (simp add: pow2_powi)

lemma pow2_add: "pow2 (a + b) = pow2 a * pow2 b"
  by (simp add: pow2_powi power_int_add)

lemma pow2_mono: "a \<le> b \<Longrightarrow> pow2 a \<le> pow2 b"
  by (simp add: pow2_powi power_int_increasing)

lemma pow2_nat: "0 \<le> e \<Longrightarrow> pow2 e = of_int (2 ^ nat e)"
  by (simp add: pow2_def)

lemma pow2_53: "pow2 53 = 9007199254740992"
  by (simp add: pow2_def)

lemma expo_bounds:
  assumes "0 < q"
  shows "pow2 (expo q) \<le> q" and "q < pow2 (expo q + 1)"
proof -
  obtain a b where ab: "quotient_of q = (a, b)"
    by (cases "quotient_of q")
  have b: "0 < b" and q: "q = of_int a / of_int b"
    using ab quotient_of_denom_pos quotient_of_div by blast+
  have a: "0 < a"
    using assms b by (simp add: q zero_less_divide_iff)
  define d where "d = bitlen a - bitlen b"
  have la1: "1 \<le> bitlen a" and lb1: "1 \<le> bitlen b"
    using a b bitlen_eq_zero_iff [of a] bitlen_eq_zero_iff [of b]
      bitlen_nonneg [of a] bitlen_nonneg [of b] by linarith+
  have "2 ^ nat (bitlen a - 1) \<le> a" "a < 2 ^ nat (bitlen a)"
    "2 ^ nat (bitlen b - 1) \<le> b" "b < 2 ^ nat (bitlen b)"
    using bitlen_bounds [OF a] bitlen_bounds [OF b] by blast+
  then have "(of_int (2 ^ nat (bitlen a - 1)) :: rat) \<le> of_int a"
    "(of_int a :: rat) < of_int (2 ^ nat (bitlen a))"
    "(of_int (2 ^ nat (bitlen b - 1)) :: rat) \<le> of_int b"
    "(of_int b :: rat) < of_int (2 ^ nat (bitlen b))"
    by (simp_all only: of_int_le_iff of_int_less_iff)
  then have A: "pow2 (bitlen a - 1) \<le> of_int a" "of_int a < pow2 (bitlen a)"
    and B: "pow2 (bitlen b - 1) \<le> of_int b" "of_int b < pow2 (bitlen b)"
    using la1 lb1 bitlen_nonneg [of a] bitlen_nonneg [of b] by (simp_all add: pow2_nat)
  have "pow2 (bitlen a) = pow2 (d + 1) * pow2 (bitlen b - 1)"
    by (simp add: d_def flip: pow2_add)
  also have "\<dots> \<le> pow2 (d + 1) * of_int b"
    using B(1) pow2_pos [of "d + 1"] by simp
  finally have "of_int a < pow2 (d + 1) * of_int b"
    using A(2) by simp
  then have up: "q < pow2 (d + 1)"
    using b by (simp add: q pos_divide_less_eq)
  have "pow2 (d - 1) * of_int b < pow2 (d - 1) * pow2 (bitlen b)"
    using B(2) pow2_pos [of "d - 1"] by simp
  also have "\<dots> = pow2 (bitlen a - 1)"
    by (simp add: d_def flip: pow2_add)
  finally have "pow2 (d - 1) * of_int b < of_int a"
    using A(1) by simp
  then have lo: "pow2 (d - 1) < q"
    using b by (simp add: q pos_less_divide_eq)
  have e: "expo q = (if pow2 d \<le> q then d else d - 1)"
    by (simp add: expo_def ab d_def Let_def)
  show "pow2 (expo q) \<le> q"
    using lo by (simp add: e)
  show "q < pow2 (expo q + 1)"
    using up by (simp add: e)
qed

lemma round_half_even_err: "\<bar>of_int (round_half_even q) - q\<bar> \<le> 1 / 2"
proof -
  have "of_int \<lfloor>q\<rfloor> \<le> q" "q < of_int \<lfloor>q\<rfloor> + 1"
    by linarith+
  then show ?thesis
    by (auto simp: round_half_even_def Let_def)
qed

lemma round_half_even_ge: "of_int k \<le> q \<Longrightarrow> k \<le> round_half_even q"
proof -
  assume "of_int k \<le> q"
  then have "k \<le> \<lfloor>q\<rfloor>"
    by (simp add: le_floor_iff)
  then show ?thesis
    by (auto simp: round_half_even_def Let_def)
qed

lemma round_half_even_near:
  assumes "\<bar>q - of_int k\<bar> < 1 / 2"
  shows "round_half_even q = k"
proof -
  have "\<bar>(of_int (round_half_even q) :: rat) - of_int k\<bar> < 1"
    using round_half_even_err [of q] assms by linarith
  then have "\<bar>(of_int (round_half_even q - k) :: rat)\<bar> < 1"
    by simp
  then have "\<bar>round_half_even q - k\<bar> < 1"
    by (metis of_int_abs of_int_less_1_iff)
  then show ?thesis
    by simp
qed

lemma fl_pos_eq:
  "0 < q \<Longrightarrow>
   fl q = of_int (round_half_even (q / pow2 (expo q - 52))) * pow2 (expo q - 52)"
  by (simp add: fl_def Let_def)

lemma fl_minus: "fl (- q) = - fl q"
  by (simp add: fl_def Let_def)

lemma fl_zero: "fl 0 = 0"
  by (simp add: fl_def)

lemma fl_err_pos:
  assumes "0 < q"
  shows "\<bar>fl q - q\<bar> \<le> q / 2 ^ 53"
proof -
  define s where "s = pow2 (expo q - 52)"
  have s: "0 < s"
    by (simp add: s_def pow2_pos)
  have "pow2 (expo q) = s * pow2 52"
    by (simp add: s_def flip: pow2_add)
  then have sq: "s * 2 ^ 52 \<le> q"
    using expo_bounds(1) [OF assms] by (simp add: pow2_def)
  have "\<bar>of_int (round_half_even (q / s)) - q / s\<bar> * s \<le> 1 / 2 * s"
    using round_half_even_err [of "q / s"] s by (intro mult_right_mono) simp_all
  moreover have "\<bar>of_int (round_half_even (q / s)) - q / s\<bar> * s
      = \<bar>(of_int (round_half_even (q / s)) - q / s) * s\<bar>"
    using s by (simp add: abs_mult)
  moreover have "(of_int (round_half_even (q / s)) - q / s) * s = fl q - q"
    using s assms by (simp add: fl_pos_eq s_def [symmetric] left_diff_distrib)
  ultimately have "\<bar>fl q - q\<bar> \<le> s / 2"
    by simp
  then show ?thesis
    using sq by simp
qed

lemma fl_err: "\<bar>fl q - q\<bar> \<le> \<bar>q\<bar> / 2 ^ 53"
proof -
  consider "0 < q" | "q = 0" | "0 < - q"
    by linarith
  then show ?thesis
  proof cases
    case 1
    then show ?thesis using fl_err_pos [of q] by simp
  next
    case 2
    then show ?thesis by (simp add: fl_zero)
  next
    case 3
    then show ?thesis using fl_err_pos [of "- q"] by (simp add: fl_minus)
  qed
qed

lemma fl_nonneg: "0 \<le> q \<Longrightarrow> 0 \<le> fl q"
proof (cases "q = 0")
  case True
  then show ?thesis by (simp add: fl_zero)
next
  case False
  assume "0 \<le> q"
  with False have q: "0 < q" by simp
  have "0 \<le> round_half_even (q / pow2 (expo q - 52))"
    using q pow2_pos [of "expo q - 52"] by (intro round_half_even_ge) simp
  then show ?thesis
    using pow2_pos [of "expo q - 52"] by (simp add: fl_pos_eq [OF q])
qed

lemma expo_le_52:
  assumes "0 < q" and "q < 2 ^ 53"
  shows "expo q \<le> 52"
proof (rule ccontr)
  assume "\<not> expo q \<le> 52"
  then have "pow2 53 \<le> pow2 (expo q)"
    by (intro pow2_mono) simp
  then show False
    using expo_bounds(1) [OF assms(1)] assms(2) by (simp add: pow2_53)
qed

lemma int_over_scale:
  assumes "e \<le> 52"
  shows "of_int n / pow2 (e - 52) = of_int (n * 2 ^ nat (52 - e))"
proof -
  have "pow2 (e - 52) * pow2 (52 - e) = 1"
    by (simp flip: pow2_add add: pow2_def)
  moreover have "pow2 (52 - e) = of_int (2 ^ nat (52 - e))"
    using assms by (simp add: pow2_nat)
  ultimately show ?thesis
    using pow2_pos [of "e - 52"] by (simp add: field_simps)
qed

lemma fl_ge_int:
  assumes "0 < q" and "q < 2 ^ 53" and "of_int n \<le> q"
  shows "of_int n \<le> fl q"
proof -
  define s where "s = pow2 (expo q - 52)"
  have s: "0 < s"
    by (simp add: s_def pow2_pos)
  define k where "k = n * 2 ^ nat (52 - expo q)"
  have k: "of_int n / s = of_int k"
    unfolding s_def k_def using expo_le_52 [OF assms(1,2)] by (rule int_over_scale)
  have "of_int k \<le> q / s"
    using assms(3) s by (simp add: k [symmetric] divide_right_mono)
  then have "k \<le> round_half_even (q / s)"
    by (rule round_half_even_ge)
  then have "(of_int k :: rat) * s \<le> of_int (round_half_even (q / s)) * s"
    using s by simp
  moreover have "of_int k * s = (of_int n :: rat)"
    using s by (simp add: k [symmetric])
  ultimately show ?thesis
    by (simp add: fl_pos_eq [OF assms(1)] s_def)
qed

lemma fl_near_int:
  assumes "0 < q" and "of_int n < (2 ^ 53 :: rat)" and "q \<le> of_int n"
    and "of_int n - q \<le> q / 2 ^ 54"
  shows "fl q = of_int n"
proof -
  define s where "s = pow2 (expo q - 52)"
  have s: "0 < s"
    by (simp add: s_def pow2_pos)
  have q53: "q < 2 ^ 53"
    using assms(2,3) by linarith
  define k where "k = n * 2 ^ nat (52 - expo q)"
  have k: "of_int n / s = of_int k"
    unfolding s_def k_def using expo_le_52 [OF assms(1) q53] by (rule int_over_scale)
  have "pow2 (expo q + 1) = pow2 ((expo q - 52) + 53)"
    by (rule arg_cong [where f = pow2]) simp
  also have "\<dots> = s * pow2 53"
    by (simp only: pow2_add s_def)
  finally have "pow2 (expo q + 1) = s * pow2 53" .
  then have qs: "q < s * 2 ^ 53"
    using expo_bounds(2) [OF assms(1)] by (simp add: pow2_53)
  have "of_int n - q < s / 2"
    using assms(4) qs by simp
  then have "(of_int n - q) / s < 1 / 2"
    using s by (simp add: field_simps)
  moreover have "(of_int n - q) / s = of_int k - q / s"
    by (simp add: k [symmetric] diff_divide_distrib)
  moreover have "q / s \<le> of_int k"
    using assms(3) s by (simp add: k [symmetric] divide_right_mono)
  ultimately have "\<bar>q / s - of_int k\<bar> < 1 / 2"
    by simp
  then have "round_half_even (q / s) = k"
    by (rule round_half_even_near)
  moreover have "of_int k * s = (of_int n :: rat)"
    using s by (simp add: k [symmetric])
  ultimately show ?thesis
    by (simp add: fl_pos_eq [OF assms(1)] s_def [symmetric])
qed

lemma fl_bounds:
  assumes "0 \<le> q"
  shows "q - q / 2 ^ 53 \<le> fl q" and "fl q \<le> q + q / 2 ^ 53"
proof -
  have "\<bar>fl q - q\<bar> \<le> q / 2 ^ 53"
    using fl_err [of q] assms by simp
  then show "q - q / 2 ^ 53 \<le> fl q" and "fl q \<le> q + q / 2 ^ 53"
    by linarith+
qed

section \<open>The constants evaluated\<close>

lemma target_width_px_eq: "target_width_px = 413"
  unfolding target_width_px_def target_width_mm_def dpi_def by code_simp

lemma target_height_px_eq: "target_height_px = 531"
  unfolding target_height_px_def target_height_mm_def dpi_def by code_simp

lemma print_size_eq: "print_width_px = 1800" "print_height_px = 1200"
  by (simp_all add: print_width_px_def print_height_px_def dpi_def)

lemma start_eq: "start_x = 250" "start_y = 49"
  by (simp_all add: start_x_def start_y_def total_grid_width_def total_grid_height_def
      cell_width_def cell_height_def photos_per_row_def photos_per_col_def photo_margin_def
      print_size_eq target_width_px_eq target_height_px_eq)

section \<open>The print sheet: size and layout\<close>

lemma paste_size:
  "sheet_width (paste s im pos) = sheet_width s" "sheet_height (paste s im pos) = sheet_height s"
  by (simp_all add: paste_def)

lemma draw_rectangle_size:
  "sheet_width (draw_rectangle s b) = sheet_width s"
  "sheet_height (draw_rectangle s b) = sheet_height s"
  by (simp_all add: draw_rectangle_def)

lemma place_photo_size:
  "sheet_width (place_photo p row col s) = sheet_width s"
  "sheet_height (place_photo p row col s) = sheet_height s"
  by (simp_all add: place_photo_def Let_def paste_size draw_rectangle_size)

lemma fold_cols_size:
  "sheet_width (fold (\<lambda>col s. place_photo p row col s) cols s) = sheet_width s
   \<and> sheet_height (fold (\<lambda>col s. place_photo p row col s) cols s) = sheet_height s"
  by (induction cols arbitrary: s) (simp_all add: place_photo_size)

lemma fold_rows_size:
  "sheet_width (fold (\<lambda>row s. fold (\<lambda>col s. place_photo p row col s) cols s) rows s)
     = sheet_width s
   \<and> sheet_height (fold (\<lambda>row s. fold (\<lambda>col s. place_photo p row col s) cols s) rows s)
     = sheet_height s"
  by (induction rows arbitrary: s) (simp_all add: fold_cols_size)

text \<open>
  C10. For every input photo, whatever its dimensions, \<open>create_4x6_print\<close> returns a
  sheet, and the sheet measures exactly 1800 by 1200 pixels.
\<close>

theorem create_4x6_print_sheet_size:
  "\<exists>s. create_4x6_print visa_photo = Inr s \<and> sheet_width s = 1800 \<and> sheet_height s = 1200"
  by (simp add: create_4x6_print_def fold_rows_size new_sheet_def print_size_eq)

lemma upto_small: "[0 .. 2 :: int] = [0, 1, 2]" "[0 .. 1 :: int] = [0, 1]"
  by (simp_all add: upto.simps)

lemma layout_consts:
  "cell_width = 433" "cell_height = 551" "total_grid_width = 1299" "total_grid_height = 1102"
  by (simp_all add: total_grid_width_def total_grid_height_def
      cell_width_def cell_height_def photos_per_row_def photos_per_col_def photo_margin_def
      target_width_px_eq target_height_px_eq)

lemma create_4x6_print_pastes:
  "\<exists>s. create_4x6_print p = Inr s \<and>
     pastes s = map (\<lambda>(row, col).
        (start_x + col * cell_width + photo_margin, start_y + row * cell_height + photo_margin,
         start_x + col * cell_width + photo_margin + width p,
         start_y + row * cell_height + photo_margin + height p))
       [(0, 0), (0, 1), (0, 2), (1, 0), (1, 1), (1, 2)]"
  by (simp add: create_4x6_print_def photos_per_row_def photos_per_col_def upto_small
      place_photo_def Let_def paste_def draw_rectangle_def new_sheet_def)

text \<open>
  C8. With the default print specification (a 413 by 531 photo on the 1800 by 1200 sheet,
  2 rows of 3 columns, margin 10) \<open>create_4x6_print\<close> pastes exactly 6 photo rectangles.
  The grid starts at \<open>((SW - grid_w) div 2, (SH - grid_h) div 2)\<close>, each photo lies at its
  cell origin plus \<open>(m, m)\<close>, the rectangles are pairwise non-overlapping and each lies
  inside \<open>[0, 1800] \<times> [0, 1200]\<close>.
\<close>

theorem default_print_layout:
  assumes "width visa_photo = 413" and "height visa_photo = 531"
  shows "\<exists>s. create_4x6_print visa_photo = Inr s
     \<and> pastes s = map (\<lambda>(row, col).
          (start_x + col * cell_width + photo_margin, start_y + row * cell_height + photo_margin,
           start_x + col * cell_width + photo_margin + 413,
           start_y + row * cell_height + photo_margin + 531))
         [(0, 0), (0, 1), (0, 2), (1, 0), (1, 1), (1, 2)]
     \<and> length (pastes s) = 6
     \<and> pairwise_disjoint (pastes s)
     \<and> list_all (\<lambda>r. inside r 1800 1200) (pastes s)
     \<and> start_x = (1800 - total_grid_width) div 2
     \<and> start_y = (1200 - total_grid_height) div 2"
proof -
  obtain s where s: "create_4x6_print visa_photo = Inr s"
    and p: "pastes s = map (\<lambda>(row, col).
        (start_x + col * cell_width + photo_margin, start_y + row * cell_height + photo_margin,
         start_x + col * cell_width + photo_margin + width visa_photo,
         start_y + row * cell_height + photo_margin + height visa_photo))
       [(0, 0), (0, 1), (0, 2), (1, 0), (1, 1), (1, 2)]"
    using create_4x6_print_pastes by blast
  have "pairwise_disjoint (pastes s)" "list_all (\<lambda>r. inside r 1800 1200) (pastes s)"
    by (simp_all add: p assms start_eq layout_consts photo_margin_def)
  moreover have "start_x = (1800 - total_grid_width) div 2"
    "start_y = (1200 - total_grid_height) div 2"
    by (simp_all add: start_x_def start_y_def print_size_eq)
  ultimately show ?thesis using s p assms by simp
qed

theorem default_print_layout_witness:
  "\<exists>s. create_4x6_print \<lparr>width = 413, height = 531, mode = RGB\<rparr> = Inr s
     \<and> pastes s = [(260, 59, 673, 590), (693, 59, 1106, 590), (1126, 59, 1539, 590),
                   (260, 610, 673, 1141), (693, 610, 1106, 1141), (1126, 610, 1539, 1141)]
     \<and> pairwise_disjoint (pastes s)
     \<and> list_all (\<lambda>r. inside r 1800 1200) (pastes s)"
proof -
  have "width \<lparr>width = 413, height = 531, mode = RGB\<rparr> = 413"
    and "height \<lparr>width = 413, height = 531, mode = RGB\<rparr> = 531"
    by simp_all
  from default_print_layout [OF this] obtain s where
    "create_4x6_print \<lparr>width = 413, height = 531, mode = RGB\<rparr> = Inr s"
    "pastes s = map (\<lambda>(row, col).
          (start_x + col * cell_width + photo_margin, start_y + row * cell_height + photo_margin,
           start_x + col * cell_width + photo_margin + 413,
           start_y + row * cell_height + photo_margin + 531))
         [(0, 0), (0, 1), (0, 2), (1, 0), (1, 1), (1, 2)]"
    "pairwise_disjoint (pastes s)" "list_all (\<lambda>r. inside r 1800 1200) (pastes s)"
    by blast
  then show ?thesis
    by (intro exI [of _ s]) (simp add: start_eq layout_consts photo_margin_def)
qed

section \<open>Cropping: the scenarios and the output size\<close>


lemma target_aspect_ratio_eq: "target_aspect_ratio = 7005599420354105 / 9007199254740992"
  unfolding target_aspect_ratio_def target_width_px_eq target_height_px_eq by code_simp

lemma face_crop_box_oversized:
  "of_int W < photo_width h \<or> of_int H < photo_height h \<Longrightarrow>
   face_crop_box W H (x, y, w, h) = Inl (NameError ''face_position_ratio'')"
  by (simp add: face_crop_box_def Let_def)

lemma photo_height_200: "photo_height 200 = 3267120265391543 / 8796093022208"
  unfolding photo_height_def estimated_head_height_def head_to_photo_ratio_def by code_simp

text \<open>
  C1. The claim is that \<open>crop_and_resize\<close> with a face box never fails and that the
  scale-down branch still returns a usable crop region inside the image, in particular
  for a 300 by 300 image. In the program the scale-down branch always ends in a
  \<open>NameError\<close>: for a 300 by 300 image with the face box \<open>(50, 50, 200, 200)\<close> the ideal
  crop is about 289 by 371, the branch is taken and \<open>crop_and_resize\<close> raises.
\<close>

theorem scale_down_branch_raises:
  "crop_and_resize \<lparr>width = 300, height = 300, mode = RGB\<rparr> (Some (50, 50, 200, 200))
     = Inl (NameError ''face_position_ratio'')"
proof -
  have "of_int 300 < photo_height 200"
    by (simp add: photo_height_200)
  then have "face_crop_box 300 300 (50, 50, 200, 200) = Inl (NameError ''face_position_ratio'')"
    by (intro face_crop_box_oversized) simp
  then show ?thesis
    by (simp add: crop_and_resize_def crop_box_of_def)
qed

lemma estimated_head_height_250: "estimated_head_height 250 = 325"
  unfolding estimated_head_height_def by code_simp

lemma photo_height_250: "photo_height 250 = 4083900331739429 / 8796093022208"
  unfolding photo_height_def estimated_head_height_250 head_to_photo_ratio_def by code_simp

lemma photo_width_250: "photo_width 250 = 6352733849372445 / 17592186044416"
  unfolding photo_width_def photo_height_250 target_aspect_ratio_eq by code_simp

lemma face_offset_y_250: "face_offset_y 250 = 75"
  unfolding face_offset_y_def by code_simp

lemma crop_center_y_250: "crop_center_y 300 250 = 350"
  unfolding crop_center_y_def face_center_y_def face_offset_y_250 by code_simp

text \<open>
  C5, as claimed: on a 1000 by 1200 image with the face box \<open>(400, 300, 200, 250)\<close> the
  photo width is about 362.1. It is not: the computed width is further than half a pixel
  from 362.1.
\<close>

theorem scenario_photo_width_counterexample:
  "\<not> \<bar>photo_width 250 - 3621 / 10\<bar> \<le> 1 / 2"
  by (simp add: photo_width_250)

text \<open>
  C5, amended: on a 1000 by 1200 image with the face box \<open>(400, 300, 200, 250)\<close> the
  face-anchored computation yields an estimated head height of exactly 325, a photo
  height of 464.3 and a photo width of 361.1 (both to one decimal place), and a crop
  centre that keeps the horizontal face centre and lies exactly 75 pixels above the
  vertical face centre, before any clamping.
\<close>

theorem scenario_face_quantities:
  "estimated_head_height 250 = 325
   \<and> \<bar>photo_height 250 - 4643 / 10\<bar> \<le> 1 / 20
   \<and> \<bar>photo_width 250 - 3611 / 10\<bar> \<le> 1 / 20
   \<and> face_offset_y 250 = 75
   \<and> crop_center_x 400 200 = face_center_x 400 200
   \<and> crop_center_y 300 250 = of_int (face_center_y 300 250) - 75"
  by (simp add: estimated_head_height_250 photo_height_250 photo_width_250 face_offset_y_250
      crop_center_y_250 crop_center_x_def face_center_y_def)

lemma crop_and_resize_size:
  "crop_and_resize im face = Inr out \<Longrightarrow> width out = 413 \<and> height out = 531"
  by (auto simp: crop_and_resize_def resize_def target_width_px_eq target_height_px_eq
      split: sum.splits if_splits)

lemma resize_target_size:
  "\<exists>out. resize cropped (target_width_px, target_height_px) = Inr out
     \<and> width out = 413 \<and> height out = 531"
  by (simp add: resize_def target_width_px_eq target_height_px_eq)

lemma center_crop_box_2000_1000: "center_crop_box 2000 1000 = Inr (611, 0, 1388, 1000)"
  unfolding center_crop_box_def target_aspect_ratio_eq by code_simp

text \<open>
  C7. Whenever the crop box that \<open>crop_and_resize\<close> has planned for an image, with or
  without a face box, measures at least 1 by 1 pixels, the image is cropped to that box,
  the crop is resampled to \<open>(target_width_px, target_height_px)\<close>, and \<open>crop_and_resize\<close>
  returns the resampled image: its dimensions are exactly the target size, 413 by 531
  pixels, whatever the size and aspect ratio of the crop.
\<close>

theorem normalized_dimensions:
  assumes "crop_box_of (width im) (height im) face = Inr (x0, y0, x1, y1)"
    and "1 \<le> x1 - x0" and "1 \<le> y1 - y0"
  shows "\<exists>cropped out.
      crop im (x0, y0, x1, y1) = Inr cropped
      \<and> width cropped = x1 - x0 \<and> height cropped = y1 - y0
      \<and> resize cropped (target_width_px, target_height_px) = Inr out
      \<and> crop_and_resize im face = Inr out
      \<and> (width out, height out) = (target_width_px, target_height_px)
      \<and> (target_width_px, target_height_px) = (413, 531)"
  using assms
  by (simp add: crop_and_resize_def crop_def resize_def target_width_px_eq
      target_height_px_eq)

theorem normalized_dimensions_witness:
  "crop_box_of 2000 1000 None = Inr (611, 0, 1388, 1000)
   \<and> (\<exists>out. crop_and_resize \<lparr>width = 2000, height = 1000, mode = RGBA\<rparr> None = Inr out
          \<and> width out = 413 \<and> height out = 531)"
proof -
  have box: "crop_box_of (width \<lparr>width = 2000, height = 1000, mode = RGBA\<rparr>)
      (height \<lparr>width = 2000, height = 1000, mode = RGBA\<rparr>) None = Inr (611, 0, 1388, 1000)"
    by (simp add: crop_box_of_def center_crop_box_2000_1000)
  have "(1 :: int) \<le> 1388 - 611" and "(1 :: int) \<le> 1000 - 0"
    by simp_all
  from normalized_dimensions [OF box this] box show ?thesis
    by auto
qed

section \<open>The pipeline: print path and print sheet\<close>

lemma crop_and_resize_2000_1000:
  "crop_and_resize \<lparr>width = 2000, height = 1000, mode = m\<rparr> None
     = Inr \<lparr>width = 413, height = 531, mode = m\<rparr>"
  by (simp add: crop_and_resize_def crop_box_of_def center_crop_box_2000_1000 crop_def
      resize_def target_width_px_eq target_height_px_eq)

lemma print_output_path_examples:
  "print_output_path ''photo_visa.jpg'' = ''photo_visa_4x6_print.jpg''"
  "print_output_path ''out.png'' = ''out.png''"
  by (simp_all add: print_output_path_def)

text \<open>
  C9. The claim is that the print sheet is saved under the primary output path with
  \<open>_4x6_print\<close> inserted before \<open>.jpg\<close>, and never overwrites the primary output file.
  The program derives the path with \<open>output_path.replace('.jpg', '_4x6_print.jpg')\<close>,
  which leaves a path without \<open>.jpg\<close> as it is: with the output path \<open>out.png\<close> the run
  succeeds, and the file \<open>out.png\<close> holds the print sheet, not the visa photo.
\<close>

theorem print_sheet_overwrites_primary:
  "\<exists>fs s. process_photo (\<lambda>im. None) (\<lambda>im. Some im)
            [''in.jpg'' \<mapsto> Photo \<lparr>width = 2000, height = 1000, mode = RGB\<rparr>]
            ''in.jpg'' ''out.png'' True True = (fs, True)
        \<and> print_output_path ''out.png'' = ''out.png''
        \<and> fs ''out.png'' = Some (Print s)"
proof -
  obtain s where s: "create_4x6_print \<lparr>width = 413, height = 531, mode = RGB\<rparr> = Inr s"
    using create_4x6_print_pastes by blast
  show ?thesis
    by (simp add: process_photo_def image_open_def remove_background_def
        crop_and_resize_2000_1000 add_white_background_def enhance_image_def s
        print_output_path_examples)
qed

text \<open>
  C3, as claimed: \<open>create_4x6_print\<close> fails with a layout error whenever
  \<open>C * (photo_w + 2m) > SW\<close> or \<open>R * (photo_h + 2m) > SH\<close>. It does not: a photo of 1000 by
  1000 pixels needs \<open>3 * 1020 > 1800\<close>, and the function returns a sheet.
\<close>

theorem no_layout_error_counterexample:
  "\<not> (\<forall>p. print_width_px < photos_per_row * (width p + 2 * photo_margin)
            \<or> print_height_px < photos_per_col * (height p + 2 * photo_margin)
          \<longrightarrow> (\<exists>e. create_4x6_print p = Inl e))"
proof
  assume a: "\<forall>p. print_width_px < photos_per_row * (width p + 2 * photo_margin)
            \<or> print_height_px < photos_per_col * (height p + 2 * photo_margin)
          \<longrightarrow> (\<exists>e. create_4x6_print p = Inl e)"
  have "print_width_px
      < photos_per_row * (width \<lparr>width = 1000, height = 1000, mode = RGB\<rparr> + 2 * photo_margin)"
    by (simp add: print_size_eq photos_per_row_def photo_margin_def)
  with a obtain e where "create_4x6_print \<lparr>width = 1000, height = 1000, mode = RGB\<rparr> = Inl e"
    by blast
  then show False
    by (simp add: create_4x6_print_def)
qed

lemma process_photo_primary:
  assumes "print_output_path output_path \<noteq> output_path"
  shows "fst (process_photo detect_face rembg fs input_path output_path remove_bg True) output_path
       = fst (process_photo detect_face rembg fs input_path output_path remove_bg False) output_path"
  using assms
  by (auto simp: process_photo_def Let_def split: sum.splits)

text \<open>
  C3, amended: \<open>create_4x6_print\<close> has no layout check and returns a sheet for every
  photo. Its grid is laid out from the fixed target size, and this grid fits the sheet.
  In \<open>process_photo\<close> the print sheet is produced after the primary photo has been saved,
  and whenever the print path differs from the primary path, the file at the primary path
  is the same with and without print-sheet generation.
\<close>

theorem print_sheet_never_fails:
  "(\<exists>s. create_4x6_print p = Inr s)
   \<and> total_grid_width \<le> print_width_px \<and> total_grid_height \<le> print_height_px
   \<and> (print_output_path output_path \<noteq> output_path \<longrightarrow>
        fst (process_photo detect_face rembg fs input_path output_path remove_bg True) output_path
        = fst (process_photo detect_face rembg fs input_path output_path remove_bg False) output_path)"
  using process_photo_primary
  by (simp add: create_4x6_print_def layout_consts print_size_eq)

theorem print_sheet_never_fails_witness:
  "print_output_path ''photo_visa.jpg'' \<noteq> ''photo_visa.jpg''
   \<and> fst (process_photo (\<lambda>im. None) (\<lambda>im. Some im)
            [''in.jpg'' \<mapsto> Photo \<lparr>width = 2000, height = 1000, mode = RGB\<rparr>]
            ''in.jpg'' ''photo_visa.jpg'' True True) ''photo_visa.jpg''
     = fst (process_photo (\<lambda>im. None) (\<lambda>im. Some im)
            [''in.jpg'' \<mapsto> Photo \<lparr>width = 2000, height = 1000, mode = RGB\<rparr>]
            ''in.jpg'' ''photo_visa.jpg'' True False) ''photo_visa.jpg''
   \<and> fst (process_photo (\<lambda>im. None) (\<lambda>im. Some im)
            [''in.jpg'' \<mapsto> Photo \<lparr>width = 2000, height = 1000, mode = RGB\<rparr>]
            ''in.jpg'' ''photo_visa.jpg'' True False) ''photo_visa.jpg''
     = Some (Photo \<lparr>width = 413, height = 531, mode = RGB\<rparr>)"
proof -
  have ne: "print_output_path ''photo_visa.jpg'' \<noteq> ''photo_visa.jpg''"
    by (simp add: print_output_path_examples)
  have "fst (process_photo (\<lambda>im. None) (\<lambda>im. Some im)
            [''in.jpg'' \<mapsto> Photo \<lparr>width = 2000, height = 1000, mode = RGB\<rparr>]
            ''in.jpg'' ''photo_visa.jpg'' True False) ''photo_visa.jpg''
     = Some (Photo \<lparr>width = 413, height = 531, mode = RGB\<rparr>)"
    by (simp add: process_photo_def image_open_def remove_background_def
        crop_and_resize_2000_1000 add_white_background_def enhance_image_def)
  with ne print_sheet_never_fails [of _ "''photo_visa.jpg''"] show ?thesis
    by simp
qed

section \<open>The centre-fallback crop\<close>

lemma fl_seven_ninths: "fl (7 / 9) = 7005599420354105 / 9007199254740992"
  by code_simp

lemma py_int_nonneg: "0 \<le> q \<Longrightarrow> py_int q = \<lfloor>q\<rfloor>"
  by (simp add: py_int_def)

lemma center_branch:
  assumes "0 < W" and "0 < H" and "H < 2 ^ 31"
  shows "target_aspect_ratio < fl (of_int W / of_int H) \<longleftrightarrow> 7 * H < 9 * W"
proof -
  define t :: rat where "t = of_int W / of_int H"
  have Hr: "(0 :: rat) < of_int H" "(of_int H :: rat) < 2 ^ 31"
    using assms by simp_all
  have t: "0 < t"
    using assms by (simp add: t_def)
  define i :: rat where "i = 1 / of_int H"
  have inv: "1 / 2147483648 < i"
    using Hr by (simp add: i_def field_simps)
  consider "7 * H < 9 * W" | "9 * W < 7 * H" | "9 * W = 7 * H"
    by linarith
  then show ?thesis
  proof cases
    case 1
    then have "7 * H + 1 \<le> 9 * W"
      by simp
    then have "(of_int (7 * H + 1) :: rat) \<le> of_int (9 * W)"
      by (simp only: of_int_le_iff)
    then have "7 * of_int H + 1 \<le> 9 * (of_int W :: rat)"
      by simp
    then have "(7 * of_int H + 1) / (9 * of_int H) \<le> 9 * (of_int W :: rat) / (9 * of_int H)"
      using Hr by (intro divide_right_mono) simp_all
    moreover have "(7 * of_int H + 1) / (9 * of_int H) = 7 / 9 + i / 9"
      using Hr by (simp add: i_def field_simps)
    ultimately have "7 / 9 + i / 9 \<le> t"
      by (simp add: t_def)
    then have "7 / 9 + (1 / 2147483648) / 9 \<le> t"
      using inv by linarith
    moreover have "t - t / 2 ^ 53 \<le> fl t"
      using t by (intro fl_bounds) simp
    ultimately have "7005599420354105 / 9007199254740992 < fl t"
      by simp
    with 1 show ?thesis
      by (simp add: target_aspect_ratio_eq t_def)
  next
    case 2
    then have "9 * W + 1 \<le> 7 * H"
      by simp
    then have "(of_int (9 * W + 1) :: rat) \<le> of_int (7 * H)"
      by (simp only: of_int_le_iff)
    then have "9 * (of_int W :: rat) \<le> 7 * of_int H - 1"
      by simp
    then have "9 * (of_int W :: rat) / (9 * of_int H) \<le> (7 * of_int H - 1) / (9 * of_int H)"
      using Hr by (intro divide_right_mono) simp_all
    moreover have "(7 * of_int H - 1) / (9 * of_int H) = 7 / 9 - i / 9"
      using Hr by (simp add: i_def field_simps)
    ultimately have "t \<le> 7 / 9 - i / 9"
      by (simp add: t_def)
    then have "t \<le> 7 / 9 - (1 / 2147483648) / 9"
      using inv by linarith
    moreover have "fl t \<le> t + t / 2 ^ 53"
      using t by (intro fl_bounds) simp
    ultimately have "fl t < 7005599420354105 / 9007199254740992"
      by simp
    with 2 show ?thesis
      by (simp add: target_aspect_ratio_eq t_def)
  next
    case 3
    then have "(of_int (9 * W) :: rat) = of_int (7 * H)"
      by simp
    then have "9 * (of_int W :: rat) = 7 * of_int H"
      by simp
    then have "t = 7 / 9"
      using Hr by (simp add: t_def field_simps)
    then have "fl t = 7005599420354105 / 9007199254740992"
      by (simp only: fl_seven_ninths)
    with 3 show ?thesis
      by (simp add: target_aspect_ratio_eq t_def [symmetric])
  qed
qed

lemma center_new_width:
  assumes "0 < H" and "H < 2 ^ 31"
  shows "py_int (fl (of_int H * target_aspect_ratio)) = 7 * H div 9"
proof -
  define q :: rat where "q = of_int H * (7005599420354105 / 9007199254740992)"
  define n where "n = 7 * H div 9"
  have Hr: "(0 :: rat) < of_int H" "(of_int H :: rat) < 2 ^ 31"
    using assms by simp_all
  have "9 * n \<le> 7 * H" "7 * H \<le> 9 * n + 8"
    unfolding n_def by linarith+
  then have "(of_int (9 * n) :: rat) \<le> of_int (7 * H)" "(of_int (7 * H) :: rat) \<le> of_int (9 * n + 8)"
    by (simp_all only: of_int_le_iff)
  then have n: "9 * (of_int n :: rat) \<le> 7 * of_int H" "7 * (of_int H :: rat) \<le> 9 * of_int n + 8"
    by simp_all
  have q: "0 < q" "q < 2 ^ 53"
    using Hr by (simp_all add: q_def)
  have "of_int n \<le> q"
    using n(1) Hr by (simp add: q_def)
  then have lo: "of_int n \<le> fl q"
    using q by (intro fl_ge_int)
  have "fl q \<le> q + q / 2 ^ 53"
    using q by (intro fl_bounds) simp
  then have up: "fl q < of_int n + 1"
    using n Hr by (simp add: q_def)
  have "\<lfloor>fl q\<rfloor> = n"
    using lo up by (rule floor_unique)
  moreover have "0 \<le> fl q"
    using q by (intro fl_nonneg) simp
  ultimately show ?thesis
    by (simp add: py_int_nonneg target_aspect_ratio_eq q_def n_def)
qed

lemma center_new_height:
  assumes "0 < W" and "W < 2 ^ 31"
  shows "py_int (fl (of_int W / target_aspect_ratio)) = 9 * W div 7"
proof -
  define q :: rat where "q = of_int W / (7005599420354105 / 9007199254740992)"
  define n where "n = 9 * W div 7"
  have Wr: "(0 :: rat) < of_int W" "(of_int W :: rat) < 2 ^ 31"
    using assms by simp_all
  have "7 * n \<le> 9 * W" "9 * W \<le> 7 * n + 6"
    unfolding n_def by linarith+
  then have "(of_int (7 * n) :: rat) \<le> of_int (9 * W)" "(of_int (9 * W) :: rat) \<le> of_int (7 * n + 6)"
    by (simp_all only: of_int_le_iff)
  then have n: "7 * (of_int n :: rat) \<le> 9 * of_int W" "9 * (of_int W :: rat) \<le> 7 * of_int n + 6"
    by simp_all
  have q: "0 < q" "q < 2 ^ 53"
    using Wr by (simp_all add: q_def)
  have "fl q \<le> q + q / 2 ^ 53"
    using q by (intro fl_bounds) simp
  then have up: "fl q < of_int n + 1"
    using n Wr by (simp add: q_def)
  have lo: "of_int n \<le> fl q"
  proof (cases "9 * W = 7 * n")
    case True
    then have "(of_int (9 * W) :: rat) = of_int (7 * n)"
      by simp
    then have e: "9 * (of_int W :: rat) = 7 * of_int n"
      by simp
    have "fl q = of_int n"
    proof (rule fl_near_int)
      show "0 < q" by (rule q)
      show "(of_int n :: rat) < 2 ^ 53" using e Wr by simp
      show "q \<le> of_int n" using e Wr by (simp add: q_def)
      show "of_int n - q \<le> q / 2 ^ 54" using e Wr by (simp add: q_def)
    qed
    then show ?thesis by simp
  next
    case False
    then have "7 * n + 1 \<le> 9 * W"
      using \<open>7 * n \<le> 9 * W\<close> by simp
    then have "(of_int (7 * n + 1) :: rat) \<le> of_int (9 * W)"
      by (simp only: of_int_le_iff)
    then have "7 * (of_int n :: rat) + 1 \<le> 9 * of_int W"
      by simp
    then have "of_int n \<le> q"
      using Wr by (simp add: q_def)
    then show ?thesis
      using q by (intro fl_ge_int)
  qed
  have "\<lfloor>fl q\<rfloor> = n"
    using lo up by (rule floor_unique)
  moreover have "0 \<le> fl q"
    using q by (intro fl_nonneg) simp
  ultimately show ?thesis
    by (simp add: py_int_nonneg target_aspect_ratio_eq q_def n_def)
qed

lemma center_crop_box_exact:
  assumes "0 < W" and "W < 2 ^ 31" and "0 < H" and "H < 2 ^ 31"
  shows "center_crop_box W H =
     (if 7 * H < 9 * W
      then Inr ((W - 7 * H div 9) div 2, 0, (W - 7 * H div 9) div 2 + 7 * H div 9, H)
      else Inr (0, (H - 9 * W div 7) div 4, W, (H - 9 * W div 7) div 4 + 9 * W div 7))"
  using assms
  by (simp add: center_crop_box_def center_branch center_new_width center_new_height Let_def)

lemma aspect_within_iff:
  assumes "0 < hgt"
  shows "\<bar>of_int wid / of_int hgt - 413 / 531\<bar> \<le> (1 / 100) * (413 / 531 :: rat)
     \<longleftrightarrow> 693 * hgt \<le> 900 * wid \<and> 900 * wid \<le> 707 * hgt"
proof -
  have h: "(0 :: rat) < of_int hgt"
    using assms by simp
  have "(693 * hgt \<le> 900 * wid) = ((of_int (693 * hgt) :: rat) \<le> of_int (900 * wid))"
    by (simp only: of_int_le_iff)
  then have lo: "(693 * hgt \<le> 900 * wid) = (693 * (of_int hgt :: rat) \<le> 900 * of_int wid)"
    by simp
  have "(900 * wid \<le> 707 * hgt) = ((of_int (900 * wid) :: rat) \<le> of_int (707 * hgt))"
    by (simp only: of_int_le_iff)
  then have up: "(900 * wid \<le> 707 * hgt) = (900 * (of_int wid :: rat) \<le> 707 * of_int hgt)"
    by simp
  have 1: "(of_int wid / of_int hgt - 413 / 531 \<le> (1 / 100) * (413 / 531 :: rat))
      = (900 * (of_int wid :: rat) \<le> 707 * of_int hgt)"
    using h by (simp add: field_simps)
  have 2: "(- (of_int wid / of_int hgt - 413 / 531) \<le> (1 / 100) * (413 / 531 :: rat))
      = (693 * (of_int hgt :: rat) \<le> 900 * of_int wid)"
    using h by (simp add: field_simps)
  show ?thesis
    unfolding abs_le_iff 1 2 lo up by blast
qed

lemma aspect_within_1_percent_iff:
  "aspect_within_1_percent (x0, y0, x1, y1)
     \<longleftrightarrow> y0 < y1 \<and> 693 * (y1 - y0) \<le> 900 * (x1 - x0) \<and> 900 * (x1 - x0) \<le> 707 * (y1 - y0)"
  using aspect_within_iff [of "y1 - y0" "x1 - x0"]
  by (auto simp: aspect_within_1_percent_def target_width_px_eq target_height_px_eq)

text \<open>
  C4, as claimed: for arbitrary \<open>W, H > 0\<close> the centre-fallback crop lies inside the image
  and has a width to height ratio within 1 percent of the target ratio. For a 50 by 50
  image the crop box is \<open>(6, 0, 44, 50)\<close>, and \<open>38 / 50\<close> is more than 2 percent below
  \<open>413 / 531\<close>.
\<close>

theorem center_crop_counterexample:
  "\<not> (\<forall>W H. 0 < W \<and> 0 < H \<longrightarrow>
         (\<exists>b. crop_box_of W H None = Inr b \<and> inside b W H \<and> aspect_within_1_percent b))"
proof
  assume a: "\<forall>W H. 0 < W \<and> 0 < H \<longrightarrow>
         (\<exists>b. crop_box_of W H None = Inr b \<and> inside b W H \<and> aspect_within_1_percent b)"
  have "center_crop_box 50 50 = Inr (6, 0, 44, 50)"
    unfolding center_crop_box_def target_aspect_ratio_eq by code_simp
  then have "crop_box_of 50 50 None = Inr (6, 0, 44, 50)"
    by (simp add: crop_box_of_def)
  moreover from a have "\<exists>b. crop_box_of 50 50 None = Inr b \<and> inside b 50 50
      \<and> aspect_within_1_percent b"
    by simp
  ultimately have "aspect_within_1_percent (6, 0, 44, 50)"
    by auto
  then show False
    by (simp add: aspect_within_1_percent_iff)
qed

text \<open>
  C4, amended: for every image of \<open>W\<close> by \<open>H\<close> pixels, \<open>0 < W, H < 2\<^sup>3\<^sup>1\<close>, the
  centre-fallback branch returns a crop box inside \<open>[0, W] \<times> [0, H]\<close>. Its width to height
  ratio is within 1 percent of the target ratio whenever the image is relatively wider
  than the target and at least 114 pixels high, or not wider than the target and at least
  67 pixels wide.
\<close>

theorem center_crop_inside_and_ratio:
  assumes "0 < W" and "W < 2 ^ 31" and "0 < H" and "H < 2 ^ 31"
  shows "\<exists>b. crop_box_of W H None = Inr b \<and> inside b W H
     \<and> (7 * H < 9 * W \<and> 114 \<le> H \<or> 9 * W \<le> 7 * H \<and> 67 \<le> W \<longrightarrow> aspect_within_1_percent b)"
proof (cases "7 * H < 9 * W")
  case True
  define n where "n = 7 * H div 9"
  have n: "9 * n \<le> 7 * H" "7 * H \<le> 9 * n + 8"
    unfolding n_def by linarith+
  have "crop_box_of W H None = Inr ((W - n) div 2, 0, (W - n) div 2 + n, H)"
    using assms True by (simp add: crop_box_of_def center_crop_box_exact n_def)
  moreover have "inside ((W - n) div 2, 0, (W - n) div 2 + n, H) W H"
    using assms True n by simp
  moreover have "114 \<le> H \<longrightarrow> aspect_within_1_percent ((W - n) div 2, 0, (W - n) div 2 + n, H)"
  proof (cases "H = 114")
    case True
    then have "n = 88"
      by (simp add: n_def)
    with True show ?thesis
      by (simp add: aspect_within_1_percent_iff)
  next
    case False
    then show ?thesis
      using assms n by (simp add: aspect_within_1_percent_iff)
  qed
  ultimately show ?thesis
    using True by auto
next
  case False
  define n where "n = 9 * W div 7"
  have n: "7 * n \<le> 9 * W" "9 * W \<le> 7 * n + 6"
    unfolding n_def by linarith+
  have "crop_box_of W H None = Inr (0, (H - n) div 4, W, (H - n) div 4 + n)"
    using assms False by (simp add: crop_box_of_def center_crop_box_exact n_def)
  moreover have "inside (0, (H - n) div 4, W, (H - n) div 4 + n) W H"
    using assms False n by simp linarith
  moreover have "67 \<le> W \<longrightarrow> aspect_within_1_percent (0, (H - n) div 4, W, (H - n) div 4 + n)"
  proof (cases "W = 67")
    case True
    then have "n = 86"
      by (simp add: n_def)
    with True show ?thesis
      by (simp add: aspect_within_1_percent_iff)
  next
    case False
    then show ?thesis
      using assms n by (simp add: aspect_within_1_percent_iff)
  qed
  ultimately show ?thesis
    using False by auto
qed

theorem center_crop_inside_and_ratio_witness:
  "crop_box_of 2000 1000 None = Inr (611, 0, 1388, 1000)
   \<and> inside (611, 0, 1388, 1000) 2000 1000
   \<and> aspect_within_1_percent (611, 0, 1388, 1000)"
proof -
  have "(0 :: int) < 2000" "(2000 :: int) < 2 ^ 31" "(0 :: int) < 1000" "(1000 :: int) < 2 ^ 31"
    by simp_all
  from center_crop_inside_and_ratio [OF this]
  show ?thesis
    by (simp add: crop_box_of_def center_crop_box_2000_1000)
qed

lemma floor_rat_numeral: "\<lfloor>numeral a / numeral b :: rat\<rfloor> = numeral a div numeral b"
  by (metis floor_divide_of_int_eq of_int_numeral)

lemma ratio_exact: "(of_int target_width_px / of_int target_height_px :: rat) = 7 / 9"
  by (simp add: target_width_px_eq target_height_px_eq)

lemma wider_iff:
  assumes "0 < H"
  shows "(7 / 9 :: rat) < of_int W / of_int H \<longleftrightarrow> 7 * H < 9 * W"
proof -
  have "(7 * H < 9 * W) = ((of_int (7 * H) :: rat) < of_int (9 * W))"
    by (simp only: of_int_less_iff)
  then show ?thesis
    using assms by (simp add: field_simps)
qed

lemma floor_seven_ninths: "\<lfloor>of_int H * (7 / 9 :: rat)\<rfloor> = 7 * H div 9"
  using floor_divide_of_int_eq [of "7 * H" 9, where ?'a = rat] by (simp add: mult.commute)

lemma floor_nine_sevenths: "\<lfloor>of_int W / (7 / 9 :: rat)\<rfloor> = 9 * W div 7"
  using floor_divide_of_int_eq [of "9 * W" 7, where ?'a = rat] by (simp add: mult.commute)

text \<open>
  C6. In centre-fallback mode, for an image of \<open>W\<close> by \<open>H\<close> pixels: if \<open>W / H\<close> exceeds the
  target aspect ratio, the crop has the width \<open>H * aspect_ratio\<close> (in whole pixels), keeps
  the full height, and is horizontally centred: the margin on the right exceeds the
  margin on the left by at most one pixel. Otherwise the crop has the height
  \<open>W / aspect_ratio\<close> (in whole pixels), keeps the full width, and starts
  \<open>(H - cropped_height) div 4\<close> below the top. The floating-point computation of the
  source agrees with these exact formulas.
\<close>

theorem center_fallback_formulas:
  assumes "0 < W" and "W < 2 ^ 31" and "0 < H" and "H < 2 ^ 31"
  shows "((of_int target_width_px / of_int target_height_px :: rat) < of_int W / of_int H \<longrightarrow>
           (let new_width = \<lfloor>of_int H * (of_int target_width_px / of_int target_height_px :: rat)\<rfloor>;
                crop_x = (W - new_width) div 2
            in crop_box_of W H None = Inr (crop_x, 0, crop_x + new_width, H)
               \<and> 0 \<le> (W - (crop_x + new_width)) - crop_x
               \<and> (W - (crop_x + new_width)) - crop_x \<le> 1))
      \<and> (\<not> (of_int target_width_px / of_int target_height_px :: rat) < of_int W / of_int H \<longrightarrow>
           (let new_height = \<lfloor>of_int W / (of_int target_width_px / of_int target_height_px :: rat)\<rfloor>;
                crop_y = (H - new_height) div 4
            in crop_box_of W H None = Inr (0, crop_y, W, crop_y + new_height)))"
proof -
  have "7 * H < 9 * W \<longrightarrow>
      crop_box_of W H None
        = Inr ((W - 7 * H div 9) div 2, 0, (W - 7 * H div 9) div 2 + 7 * H div 9, H)
      \<and> 0 \<le> (W - ((W - 7 * H div 9) div 2 + 7 * H div 9)) - (W - 7 * H div 9) div 2
      \<and> (W - ((W - 7 * H div 9) div 2 + 7 * H div 9)) - (W - 7 * H div 9) div 2 \<le> 1"
    using assms by (simp add: crop_box_of_def center_crop_box_exact) linarith
  moreover have "\<not> 7 * H < 9 * W \<longrightarrow>
      crop_box_of W H None
        = Inr (0, (H - 9 * W div 7) div 4, W, (H - 9 * W div 7) div 4 + 9 * W div 7)"
    using assms by (simp add: crop_box_of_def center_crop_box_exact)
  ultimately show ?thesis
    unfolding ratio_exact wider_iff [OF assms(3)] floor_seven_ninths floor_nine_sevenths Let_def
    by blast
qed

theorem center_fallback_formulas_witness:
  "crop_box_of 2000 1000 None = Inr (611, 0, 1388, 1000)
   \<and> crop_box_of 1000 2000 None = Inr (0, 178, 1000, 1463)"
proof -
  have a: "(0 :: int) < 2000" "(2000 :: int) < 2 ^ 31" "(0 :: int) < 1000" "(1000 :: int) < 2 ^ 31"
    by simp_all
  from center_fallback_formulas [OF a(1,2,3,4)] center_fallback_formulas [OF a(3,4,1,2)]
  show ?thesis
    by (simp add: ratio_exact floor_rat_numeral Let_def)
qed

section \<open>The face-anchored crop\<close>

lemma fl_bounds_num:
  assumes "0 \<le> q"
  shows "q - q / 9007199254740992 \<le> fl q" and "fl q \<le> q + q / 9007199254740992"
  using fl_bounds [OF assms] by simp_all

lemma fl_13_10: "fl (13 / 10) = 5854679515581645 / 4503599627370496"
  by code_simp

lemma head_to_photo_ratio_eq: "head_to_photo_ratio = 3152519739159347 / 4503599627370496"
  unfolding head_to_photo_ratio_def by code_simp

lemma photo_height_bounds:
  assumes "0 < h"
  shows "13 / 7 * of_int h - of_int h / 1125899906842624 \<le> photo_height h"
    and "photo_height h \<le> 13 / 7 * of_int h + of_int h / 1125899906842624"
proof -
  define E where "E = estimated_head_height h"
  have hr: "(0 :: rat) < of_int h"
    using assms by simp
  have E: "of_int h * (5854679515581645 / 4503599627370496)
        - of_int h * (5854679515581645 / 4503599627370496) / 9007199254740992 \<le> E"
    "E \<le> of_int h * (5854679515581645 / 4503599627370496)
        + of_int h * (5854679515581645 / 4503599627370496) / 9007199254740992"
    unfolding E_def estimated_head_height_def fl_13_10
    using hr by (intro fl_bounds_num; simp)+
  then have E0: "0 \<le> E"
    using hr by (simp add: field_simps; linarith?)
  have P: "E / (3152519739159347 / 4503599627370496)
        - E / (3152519739159347 / 4503599627370496) / 9007199254740992 \<le> photo_height h"
    "photo_height h \<le> E / (3152519739159347 / 4503599627370496)
        + E / (3152519739159347 / 4503599627370496) / 9007199254740992"
    unfolding photo_height_def E_def [symmetric] head_to_photo_ratio_eq
    using E0 by (intro fl_bounds_num; simp)+
  show "13 / 7 * of_int h - of_int h / 1125899906842624 \<le> photo_height h"
    using E P hr by (simp add: field_simps; linarith?)
  show "photo_height h \<le> 13 / 7 * of_int h + of_int h / 1125899906842624"
    using E P hr by (simp add: field_simps; linarith?)
qed

lemma photo_width_bounds:
  assumes "0 < h"
  shows "7 / 9 * photo_height h - photo_height h / 4503599627370496 \<le> photo_width h"
    and "photo_width h \<le> 7 / 9 * photo_height h + photo_height h / 4503599627370496"
proof -
  have hr: "(1 :: rat) \<le> of_int h"
    using assms by simp
  have "0 < photo_height h"
    using photo_height_bounds(1) [OF assms] hr by (simp add: field_simps; linarith?)
  then have "0 \<le> photo_height h * (7005599420354105 / 9007199254740992)"
    by simp
  from fl_bounds_num [OF this]
  show "7 / 9 * photo_height h - photo_height h / 4503599627370496 \<le> photo_width h"
    and "photo_width h \<le> 7 / 9 * photo_height h + photo_height h / 4503599627370496"
    using \<open>0 < photo_height h\<close>
    unfolding photo_width_def target_aspect_ratio_eq by (simp_all add: field_simps)
qed

lemma axis_bounds:
  assumes "0 < L" and "L < 2 ^ 31" and "0 < p" and "p \<le> of_int L"
    and "0 \<le> c" and "c \<le> fl (of_int L - p)"
  shows "0 \<le> py_int c" and "py_int c \<le> py_int (fl (c + p))" and "py_int (fl (c + p)) \<le> L"
    and "p - 1 - 1 / 1048576 < of_int (py_int (fl (c + p)) - py_int c)"
    and "of_int (py_int (fl (c + p)) - py_int c) < p + 1 + 1 / 1048576"
proof -
  define f where "f = fl (c + p)"
  have Lr: "(0 :: rat) < of_int L" "(of_int L :: rat) < 2147483648"
    using assms(1,2) by simp_all
  have "fl (of_int L - p) \<le> (of_int L - p) + (of_int L - p) / 9007199254740992"
    using assms(4) by (intro fl_bounds_num) simp
  then have cp: "c + p \<le> of_int L + of_int L / 9007199254740992"
    using assms(3,6) by (simp add: field_simps; linarith?)
  have cp0: "0 < c + p"
    using assms(3,5) by simp
  have f: "(c + p) - (c + p) / 9007199254740992 \<le> f" "f \<le> (c + p) + (c + p) / 9007199254740992"
    unfolding f_def using cp0 by (intro fl_bounds_num; simp)+
  have f0: "0 \<le> f"
    unfolding f_def using cp0 by (intro fl_nonneg) simp
  have c: "of_int \<lfloor>c\<rfloor> \<le> c" "c < of_int \<lfloor>c\<rfloor> + 1"
    by linarith+
  have ff: "of_int \<lfloor>f\<rfloor> \<le> f" "f < of_int \<lfloor>f\<rfloor> + 1"
    by linarith+
  have a0: "py_int c = \<lfloor>c\<rfloor>" and a1: "py_int (fl (c + p)) = \<lfloor>f\<rfloor>"
    using assms(5) f0 by (simp_all add: py_int_nonneg f_def)
  show "0 \<le> py_int c"
    using assms(5) by (simp add: a0)
  have "c + p < 9007199254740992"
    using cp Lr by (simp add: field_simps; linarith?)
  then have "c + p < 2 ^ 53"
    by simp
  moreover have "of_int \<lfloor>c\<rfloor> \<le> c + p"
    using c(1) assms(3) by linarith
  ultimately have "of_int \<lfloor>c\<rfloor> \<le> f"
    unfolding f_def using cp0 by (intro fl_ge_int)
  then show "py_int c \<le> py_int (fl (c + p))"
    by (simp add: a0 a1 le_floor_iff)
  have "f < of_int L + 1"
    using f(2) cp Lr by (simp add: field_simps; linarith?)
  then show "py_int (fl (c + p)) \<le> L"
    by (simp add: a1 floor_le_iff)
  show "p - 1 - 1 / 1048576 < of_int (py_int (fl (c + p)) - py_int c)"
    unfolding a0 a1 of_int_diff using f(1) cp Lr c ff by (simp add: field_simps; linarith?)
  show "of_int (py_int (fl (c + p)) - py_int c) < p + 1 + 1 / 1048576"
    unfolding a0 a1 of_int_diff using f(2) cp Lr c ff by (simp add: field_simps; linarith?)
qed

lemma clamped_crop_x_range:
  assumes "photo_width h \<le> of_int W"
  shows "0 \<le> clamped_crop_x W x w h" and "clamped_crop_x W x w h \<le> fl (of_int W - photo_width h)"
proof -
  have "0 \<le> fl (of_int W - photo_width h)"
    using assms by (intro fl_nonneg) simp
  then show "0 \<le> clamped_crop_x W x w h"
    and "clamped_crop_x W x w h \<le> fl (of_int W - photo_width h)"
    by (simp_all add: clamped_crop_x_def)
qed

lemma clamped_crop_y_range:
  assumes "photo_height h \<le> of_int H"
  shows "0 \<le> clamped_crop_y H y h" and "clamped_crop_y H y h \<le> fl (of_int H - photo_height h)"
proof -
  have "0 \<le> fl (of_int H - photo_height h)"
    using assms by (intro fl_nonneg) simp
  then show "0 \<le> clamped_crop_y H y h"
    and "clamped_crop_y H y h \<le> fl (of_int H - photo_height h)"
    by (simp_all add: clamped_crop_y_def)
qed

lemma face_crop_box_fits:
  assumes "photo_width h \<le> of_int W" and "photo_height h \<le> of_int H"
  shows "face_crop_box W H (x, y, w, h) =
     Inr (py_int (clamped_crop_x W x w h), py_int (clamped_crop_y H y h),
          py_int (fl (clamped_crop_x W x w h + photo_width h)),
          py_int (fl (clamped_crop_y H y h + photo_height h)))"
  using assms by (simp add: face_crop_box_def Let_def not_less [symmetric])

lemma photo_height_25: "photo_height 25 = 3267120265391543 / 70368744177664"
  unfolding photo_height_def estimated_head_height_def head_to_photo_ratio_def by code_simp

lemma photo_width_25: "photo_width 25 = 1270546769874489 / 35184372088832"
  unfolding photo_width_def photo_height_25 target_aspect_ratio_eq by code_simp

lemma crop_center_y_25: "crop_center_y 100 25 = 209 / 2"
  unfolding crop_center_y_def face_center_y_def face_offset_y_def by code_simp

lemma clamped_crop_x_25: "clamped_crop_x 1000 100 25 25 = 6610752578023879 / 70368744177664"
  unfolding clamped_crop_x_def crop_x_of_center_def crop_center_x_def face_center_x_def
    photo_width_25 by code_simp

lemma clamped_crop_y_25: "clamped_crop_y 1000 100 25 = 1429993408467529 / 17592186044416"
  unfolding clamped_crop_y_def crop_y_of_center_def crop_center_y_25 photo_height_25
  by code_simp

lemma face_crop_box_25: "face_crop_box 1000 1000 (100, 100, 25, 25) = Inr (93, 81, 130, 127)"
proof -
  have "photo_width 25 \<le> of_int 1000" "photo_height 25 \<le> of_int 1000"
    by (simp_all add: photo_width_25 photo_height_25)
  from face_crop_box_fits [OF this, of 100 100 25]
  have "face_crop_box 1000 1000 (100, 100, 25, 25) =
     Inr (py_int (6610752578023879 / 70368744177664), py_int (1429993408467529 / 17592186044416),
          py_int (fl (6610752578023879 / 70368744177664 + 1270546769874489 / 35184372088832)),
          py_int (fl (1429993408467529 / 17592186044416 + 3267120265391543 / 70368744177664)))"
    by (simp only: clamped_crop_x_25 clamped_crop_y_25 photo_width_25 photo_height_25)
  also have "\<dots> = Inr (93, 81, 130, 127)"
    by code_simp
  finally show ?thesis .
qed

text \<open>
  C2, as claimed: for every image and every valid face box within its bounds, the
  face-anchored branch returns a crop box inside the image whose width to height ratio is
  within 1 percent of the target ratio. For a 1000 by 1000 image with the face box
  \<open>(100, 100, 25, 25)\<close> the crop box is \<open>(93, 81, 130, 127)\<close>, and \<open>37 / 46\<close> is more than
  3 percent above \<open>413 / 531\<close>.
\<close>

theorem face_crop_ratio_counterexample:
  "\<not> (\<forall>W H x y w h. 0 < W \<and> 0 < H \<and> 0 \<le> x \<and> 0 \<le> y \<and> 0 < w \<and> 0 < h \<and> x + w \<le> W \<and> y + h \<le> H
        \<longrightarrow> (\<exists>b. crop_box_of W H (Some (x, y, w, h)) = Inr b \<and> inside b W H
                 \<and> aspect_within_1_percent b))"
proof
  assume "\<forall>W H x y w h. 0 < W \<and> 0 < H \<and> 0 \<le> x \<and> 0 \<le> y \<and> 0 < w \<and> 0 < h \<and> x + w \<le> W \<and> y + h \<le> H
        \<longrightarrow> (\<exists>b. crop_box_of W H (Some (x, y, w, h)) = Inr b \<and> inside b W H
              \<and> aspect_within_1_percent b)"
  then have "(0 :: int) < 1000 \<and> (0 :: int) < 1000 \<and> (0 :: int) \<le> 100 \<and> (0 :: int) \<le> 100
        \<and> (0 :: int) < 25 \<and> (0 :: int) < 25 \<and> (100 :: int) + 25 \<le> 1000 \<and> (100 :: int) + 25 \<le> 1000
      \<longrightarrow> (\<exists>b. crop_box_of 1000 1000 (Some (100, 100, 25, 25)) = Inr b \<and> inside b 1000 1000
              \<and> aspect_within_1_percent b)"
    by blast
  then have "aspect_within_1_percent (93, 81, 130, 127)"
    by (simp add: crop_box_of_def face_crop_box_25)
  then show False
    by (simp add: aspect_within_1_percent_iff)
qed

lemma ratio_from_int_bounds:
  fixes h wid hgt :: int
  assumes "107 \<le> h"
    and w: "13 * h - 9 \<le> 9 * wid" "9 * wid \<le> 13 * h + 9"
    and g: "13 * h - 7 \<le> 7 * hgt" "7 * hgt \<le> 13 * h + 7"
  shows "693 * hgt \<le> 900 * wid \<and> 900 * wid \<le> 707 * hgt"
proof (cases "124 \<le> h")
  case True
  then show ?thesis
    using w g by linarith
next
  case False
  then have "h = 107 \<or> h = 108 \<or> h = 109 \<or> h = 110 \<or> h = 111 \<or>
      h = 112 \<or> h = 113 \<or> h = 114 \<or> h = 115 \<or> h = 116 \<or> h = 117 \<or>
      h = 118 \<or> h = 119 \<or> h = 120 \<or> h = 121 \<or> h = 122 \<or> h = 123"
    using assms(1) by presburger
  then consider "h = 107" | "h = 108" | "h = 109" | "h = 110" | "h = 111" | "h = 112" | "h = 113" |
      "h = 114" | "h = 115" | "h = 116" | "h = 117" | "h = 118" | "h = 119" | "h = 120" |
      "h = 121" | "h = 122" | "h = 123"
    by blast
  then show ?thesis
  proof cases
    case 1
    have "154 \<le> wid" "wid \<le> 155" "198 \<le> hgt" "hgt \<le> 199"
      using w g unfolding 1 by linarith+
    then show ?thesis
      by linarith
  next
    case 2
    have "155 \<le> wid" "wid \<le> 157" "200 \<le> hgt" "hgt \<le> 201"
      using w g unfolding 2 by linarith+
    then show ?thesis
      by linarith
  next
    case 3
    have "157 \<le> wid" "wid \<le> 158" "202 \<le> hgt" "hgt \<le> 203"
      using w g unfolding 3 by linarith+
    then show ?thesis
      by linarith
  next
    case 4
    have "158 \<le> wid" "wid \<le> 159" "204 \<le> hgt" "hgt \<le> 205"
      using w g unfolding 4 by linarith+
    then show ?thesis
      by linarith
  next
    case 5
    have "160 \<le> wid" "wid \<le> 161" "206 \<le> hgt" "hgt \<le> 207"
      using w g unfolding 5 by linarith+
    then show ?thesis
      by linarith
  next
    case 6
    have "161 \<le> wid" "wid \<le> 162" "207 \<le> hgt" "hgt \<le> 209"
      using w g unfolding 6 by linarith+
    then show ?thesis
      by linarith
  next
    case 7
    have "163 \<le> wid" "wid \<le> 164" "209 \<le> hgt" "hgt \<le> 210"
      using w g unfolding 7 by linarith+
    then show ?thesis
      by linarith
  next
    case 8
    have "164 \<le> wid" "wid \<le> 165" "211 \<le> hgt" "hgt \<le> 212"
      using w g unfolding 8 by linarith+
    then show ?thesis
      by linarith
  next
    case 9
    have "166 \<le> wid" "wid \<le> 167" "213 \<le> hgt" "hgt \<le> 214"
      using w g unfolding 9 by linarith+
    then show ?thesis
      by linarith
  next
    case 10
    have "167 \<le> wid" "wid \<le> 168" "215 \<le> hgt" "hgt \<le> 216"
      using w g unfolding 10 by linarith+
    then show ?thesis
      by linarith
  next
    case 11
    have "168 \<le> wid" "wid \<le> 170" "217 \<le> hgt" "hgt \<le> 218"
      using w g unfolding 11 by linarith+
    then show ?thesis
      by linarith
  next
    case 12
    have "170 \<le> wid" "wid \<le> 171" "219 \<le> hgt" "hgt \<le> 220"
      using w g unfolding 12 by linarith+
    then show ?thesis
      by linarith
  next
    case 13
    have "171 \<le> wid" "wid \<le> 172" "220 \<le> hgt" "hgt \<le> 222"
      using w g unfolding 13 by linarith+
    then show ?thesis
      by linarith
  next
    case 14
    have "173 \<le> wid" "wid \<le> 174" "222 \<le> hgt" "hgt \<le> 223"
      using w g unfolding 14 by linarith+
    then show ?thesis
      by linarith
  next
    case 15
    have "174 \<le> wid" "wid \<le> 175" "224 \<le> hgt" "hgt \<le> 225"
      using w g unfolding 15 by linarith+
    then show ?thesis
      by linarith
  next
    case 16
    have "176 \<le> wid" "wid \<le> 177" "226 \<le> hgt" "hgt \<le> 227"
      using w g unfolding 16 by linarith+
    then show ?thesis
      by linarith
  next
    case 17
    have "177 \<le> wid" "wid \<le> 178" "228 \<le> hgt" "hgt \<le> 229"
      using w g unfolding 17 by linarith+
    then show ?thesis
      by linarith
  qed
qed

lemma crop_width_int_bounds:
  assumes "0 < h" and "h < 2 ^ 31"
    and "photo_width h - 1 - 1 / 1048576 < of_int wid"
    and "of_int wid < photo_width h + 1 + 1 / 1048576"
  shows "13 * h - 9 \<le> 9 * wid" and "9 * wid \<le> 13 * h + 9"
proof -
  have hr: "(0 :: rat) < of_int h" "(of_int h :: rat) < 2147483648"
    using assms(1,2) by simp_all
  note ph = photo_height_bounds [OF assms(1)]
  note pw = photo_width_bounds [OF assms(1)]
  have "13 * (of_int h :: rat) - 10 < 9 * of_int wid"
    using hr ph pw assms(3) by (simp add: field_simps; linarith?)
  then have "(of_int (13 * h - 10) :: rat) < of_int (9 * wid)"
    by simp
  then have "13 * h - 10 < 9 * wid"
    by (simp only: of_int_less_iff)
  then show "13 * h - 9 \<le> 9 * wid"
    by simp
  have "9 * of_int wid < 13 * (of_int h :: rat) + 10"
    using hr ph pw assms(4) by (simp add: field_simps; linarith?)
  then have "(of_int (9 * wid) :: rat) < of_int (13 * h + 10)"
    by simp
  then have "9 * wid < 13 * h + 10"
    by (simp only: of_int_less_iff)
  then show "9 * wid \<le> 13 * h + 9"
    by simp
qed

lemma crop_height_int_bounds:
  assumes "0 < h" and "h < 2 ^ 31"
    and "photo_height h - 1 - 1 / 1048576 < of_int hgt"
    and "of_int hgt < photo_height h + 1 + 1 / 1048576"
  shows "13 * h - 7 \<le> 7 * hgt" and "7 * hgt \<le> 13 * h + 7"
proof -
  have hr: "(0 :: rat) < of_int h" "(of_int h :: rat) < 2147483648"
    using assms(1,2) by simp_all
  note ph = photo_height_bounds [OF assms(1)]
  have "13 * (of_int h :: rat) - 8 < 7 * of_int hgt"
    using hr ph assms(3) by (simp add: field_simps; linarith?)
  then have "(of_int (13 * h - 8) :: rat) < of_int (7 * hgt)"
    by simp
  then have "13 * h - 8 < 7 * hgt"
    by (simp only: of_int_less_iff)
  then show "13 * h - 7 \<le> 7 * hgt"
    by simp
  have "7 * of_int hgt < 13 * (of_int h :: rat) + 8"
    using hr ph assms(4) by (simp add: field_simps; linarith?)
  then have "(of_int (7 * hgt) :: rat) < of_int (13 * h + 8)"
    by simp
  then have "7 * hgt < 13 * h + 8"
    by (simp only: of_int_less_iff)
  then show "7 * hgt \<le> 13 * h + 7"
    by simp
qed

text \<open>
  A face box of 106 pixels in the upper right corner of a 1000 by 1000 image: the crop
  is held at the right and the upper edge, and \<open>154 / 196\<close> is just over 1 percent above
  the target ratio.
\<close>

lemma photo_height_106: "photo_height 106 = 865786870328759 / 4398046511104"
  unfolding photo_height_def estimated_head_height_def head_to_photo_ratio_def by code_simp

lemma photo_width_106: "photo_width 106 = 2693559152133917 / 17592186044416"
  unfolding photo_width_def photo_height_106 target_aspect_ratio_eq by code_simp

lemma crop_center_y_106: "crop_center_y 0 106 = 1491817376566477 / 70368744177664"
  unfolding crop_center_y_def face_center_y_def face_offset_y_def by code_simp

lemma clamped_crop_x_106: "clamped_crop_x 1000 894 106 106 = 3724656723070521 / 4398046511104"
  unfolding clamped_crop_x_def crop_x_of_center_def crop_center_x_def face_center_x_def
    photo_width_106 by code_simp

lemma clamped_crop_y_106: "clamped_crop_y 1000 0 106 = 0"
  unfolding clamped_crop_y_def crop_y_of_center_def crop_center_y_106 photo_height_106
  by code_simp

lemma face_crop_box_106:
  "face_crop_box 1000 1000 (894, 0, 106, 106) = Inr (846, 0, 1000, 196)"
  "\<not> aspect_within_1_percent (846, 0, 1000, 196)"
proof -
  have "photo_width 106 \<le> of_int 1000" "photo_height 106 \<le> of_int 1000"
    by (simp_all add: photo_width_106 photo_height_106)
  from face_crop_box_fits [OF this, of 894 0 106]
  have "face_crop_box 1000 1000 (894, 0, 106, 106) =
     Inr (py_int (3724656723070521 / 4398046511104), py_int 0,
          py_int (fl (3724656723070521 / 4398046511104 + 2693559152133917 / 17592186044416)),
          py_int (fl (0 + 865786870328759 / 4398046511104)))"
    by (simp only: clamped_crop_x_106 clamped_crop_y_106 photo_width_106 photo_height_106)
  also have "\<dots> = Inr (846, 0, 1000, 196)"
    by code_simp
  finally show "face_crop_box 1000 1000 (894, 0, 106, 106) = Inr (846, 0, 1000, 196)" .
  show "\<not> aspect_within_1_percent (846, 0, 1000, 196)"
    by (simp add: aspect_within_1_percent_iff)
qed

text \<open>
  C2, amended: for every image of \<open>W\<close> by \<open>H\<close> pixels, \<open>0 < W, H < 2\<^sup>3\<^sup>1\<close>, and every
  valid face box within its bounds whose ideal crop fits the image (\<open>photo_width \<le> W\<close>
  and \<open>photo_height \<le> H\<close>, so that the scale-down branch is not taken), the
  face-anchored branch returns a crop box inside \<open>[0, W] \<times> [0, H]\<close>. Its width to height
  ratio is within 1 percent of the target ratio whenever the face box is at least 107
  pixels high.
\<close>

theorem face_crop_inside_and_ratio:
  assumes "0 < W" and "W < 2 ^ 31" and "0 < H" and "H < 2 ^ 31"
    and "0 \<le> x" and "0 \<le> y" and "0 < w" and "0 < h" and "x + w \<le> W" and "y + h \<le> H"
    and "photo_width h \<le> of_int W" and "photo_height h \<le> of_int H"
  shows "\<exists>b. crop_box_of W H (Some (x, y, w, h)) = Inr b \<and> inside b W H
     \<and> (107 \<le> h \<longrightarrow> aspect_within_1_percent b)"
proof -
  define cx where "cx = clamped_crop_x W x w h"
  define cy where "cy = clamped_crop_y H y h"
  define x0 where "x0 = py_int cx"
  define x1 where "x1 = py_int (fl (cx + photo_width h))"
  define y0 where "y0 = py_int cy"
  define y1 where "y1 = py_int (fl (cy + photo_height h))"
  have h31: "h < 2 ^ 31"
    using assms(4,6,10) by simp
  have hr: "(1 :: rat) \<le> of_int h"
    using assms(8) by simp
  have ph: "13 / 7 * of_int h - of_int h / 1125899906842624 \<le> photo_height h"
    by (rule photo_height_bounds(1) [OF assms(8)])
  have ph0: "0 < photo_height h"
    using ph hr by (simp add: field_simps; linarith?)
  have pw: "7 / 9 * photo_height h - photo_height h / 4503599627370496 \<le> photo_width h"
    by (rule photo_width_bounds(1) [OF assms(8)])
  have pw0: "0 < photo_width h"
    using pw ph0 by (simp add: field_simps; linarith?)
  have X: "0 \<le> x0" "x0 \<le> x1" "x1 \<le> W"
    "photo_width h - 1 - 1 / 1048576 < of_int (x1 - x0)"
    "of_int (x1 - x0) < photo_width h + 1 + 1 / 1048576"
    unfolding x0_def x1_def cx_def
    using axis_bounds [OF assms(1,2) pw0 assms(11) clamped_crop_x_range [OF assms(11)]]
    by blast+
  have Y: "0 \<le> y0" "y0 \<le> y1" "y1 \<le> H"
    "photo_height h - 1 - 1 / 1048576 < of_int (y1 - y0)"
    "of_int (y1 - y0) < photo_height h + 1 + 1 / 1048576"
    unfolding y0_def y1_def cy_def
    using axis_bounds [OF assms(3,4) ph0 assms(12) clamped_crop_y_range [OF assms(12)]]
    by blast+
  have box: "crop_box_of W H (Some (x, y, w, h)) = Inr (x0, y0, x1, y1)"
    using face_crop_box_fits [OF assms(11,12)]
    by (simp add: crop_box_of_def x0_def x1_def y0_def y1_def cx_def cy_def)
  have ins: "inside (x0, y0, x1, y1) W H"
    using X(1-3) Y(1-3) by simp
  have "aspect_within_1_percent (x0, y0, x1, y1)" if "107 \<le> h"
  proof -
    define wid where "wid = x1 - x0"
    define hgt where "hgt = y1 - y0"
    note wb = crop_width_int_bounds [OF assms(8) h31 X(4,5) [folded wid_def]]
    note hb = crop_height_int_bounds [OF assms(8) h31 Y(4,5) [folded hgt_def]]
    have "0 < hgt"
      using hb(1) that by linarith
    with ratio_from_int_bounds [OF that wb hb] show ?thesis
      by (simp add: aspect_within_1_percent_iff wid_def hgt_def)
  qed
  with box ins show ?thesis
    by blast
qed

lemma clamped_crop_x_250: "clamped_crop_x 1000 400 200 250 = 2809863048760889 / 8796093022208"
  unfolding clamped_crop_x_def crop_x_of_center_def crop_center_x_def face_center_x_def
    photo_width_250 by code_simp

lemma clamped_crop_y_250: "clamped_crop_y 1200 300 250 = 2073364783806171 / 17592186044416"
  unfolding clamped_crop_y_def crop_y_of_center_def crop_center_y_250 photo_height_250
  by code_simp

lemma face_crop_box_250:
  "face_crop_box 1000 1200 (400, 300, 200, 250) = Inr (319, 117, 680, 582)"
proof -
  have "photo_width 250 \<le> of_int 1000" "photo_height 250 \<le> of_int 1200"
    by (simp_all add: photo_width_250 photo_height_250)
  from face_crop_box_fits [OF this, of 400 300 200]
  have "face_crop_box 1000 1200 (400, 300, 200, 250) =
     Inr (py_int (2809863048760889 / 8796093022208), py_int (2073364783806171 / 17592186044416),
          py_int (fl (2809863048760889 / 8796093022208 + 6352733849372445 / 17592186044416)),
          py_int (fl (2073364783806171 / 17592186044416 + 4083900331739429 / 8796093022208)))"
    by (simp only: clamped_crop_x_250 clamped_crop_y_250 photo_width_250 photo_height_250)
  also have "\<dots> = Inr (319, 117, 680, 582)"
    by code_simp
  finally show ?thesis .
qed

theorem face_crop_inside_and_ratio_witness:
  "crop_box_of 1000 1200 (Some (400, 300, 200, 250)) = Inr (319, 117, 680, 582)
   \<and> inside (319, 117, 680, 582) 1000 1200
   \<and> aspect_within_1_percent (319, 117, 680, 582)"
proof -
  have "(0 :: int) < 1000" "(1000 :: int) < 2 ^ 31" "(0 :: int) < 1200" "(1200 :: int) < 2 ^ 31"
    "(0 :: int) \<le> 400" "(0 :: int) \<le> 300" "(0 :: int) < 200" "(0 :: int) < 250"
    "(400 :: int) + 200 \<le> 1000" "(300 :: int) + 250 \<le> 1200"
    "photo_width 250 \<le> of_int 1000" "photo_height 250 \<le> of_int 1200"
    by (simp_all add: photo_width_250 photo_height_250)
  from face_crop_inside_and_ratio [OF this]
  show ?thesis
    by (simp add: crop_box_of_def face_crop_box_250)
qed

end
